theory Spec2Isabelle
  imports Main "HOL-Library.Sublist"
begin

section \<open>Replica management commands of chadmin\<close>

text \<open>
  A shallow embedding of \<^verbatim>\<open>ch_tools/chadmin/cli/replica_group.py\<close>: the commands
  \<^verbatim>\<open>replica restart\<close> and \<^verbatim>\<open>replica restore\<close>. The two commands call \<^verbatim>\<open>list_table_replicas\<close>,
  \<^verbatim>\<open>restart_table_replica\<close> and \<^verbatim>\<open>restore_table_replica\<close> of
  \<^verbatim>\<open>ch_tools.chadmin.internal.table_replica\<close> and \<^verbatim>\<open>get_cluster_name\<close> of
  \<^verbatim>\<open>ch_tools.common.clickhouse.config\<close>; those modules are not part of the sources at
  hand. The catalog read is a parameter of the commands, and a model of it after the
  specification is given separately; the two mutating functions are modelled after the
  specification.
\<close>

subsection \<open>Data\<close>

text \<open>A row of the replica catalog: a Python dict read by key.\<close>

record replica =
  database :: string
  table :: string
  is_readonly :: bool

text \<open>
  The exceptions a remote call can raise. \<^verbatim>\<open>ClickhouseError\<close> carries
  \<^verbatim>\<open>e.response.text\<close>, the raw message of the server; everything the handler
  \<^verbatim>\<open>except ClickhouseError\<close> does not catch is \<open>OtherException\<close>.
\<close>

datatype exn = ClickhouseError string | OtherException string

datatype operation = Restart | Restore

text \<open>A mutating call: operation, database, table and the cluster annotation.\<close>

datatype call = Call operation string string "string option"

text \<open>
  The remote engine answers a call from the calls it has received before: \<open>None\<close> is
  success, \<open>Some e\<close> the exception raised.
\<close>

type_synonym engine = "call list \<Rightarrow> call \<Rightarrow> exn option"

text \<open>
  What a command leaves behind: the calls that reached the engine, in order, and the
  actions recorded in dry-run mode.
\<close>

record world =
  sent :: "call list"
  intended :: "call list"

text \<open>A statement running in a world: the exception it raised, if any, and the world after it.\<close>

type_synonym stmt = "world \<Rightarrow> exn option \<times> world"

text \<open>Sequencing of two statements: an exception of the first skips the second.\<close>

definition seq :: "stmt \<Rightarrow> stmt \<Rightarrow> stmt" where
  "seq m1 m2 w = (case m1 w of (None, w1) \<Rightarrow> m2 w1 | (Some e, w1) \<Rightarrow> (Some e, w1))"

text \<open>The context object: \<^verbatim>\<open>get_cluster_name(ctx)\<close> reads the cluster name of the configuration.\<close>

record ctx =
  cluster_name :: string

text \<open>The selection options click passes to the commands, collected by \<^verbatim>\<open>**kwargs\<close>.\<close>

record selection =
  database_pattern :: "string option"
  exclude_database_pattern :: "string option"
  table_pattern :: "string option"
  exclude_table_pattern :: "string option"

text \<open>
  The keyword arguments \<^verbatim>\<open>list_table_replicas\<close> receives. \<open>None\<close> in \<open>kw_all\<close> and
  \<open>kw_is_readonly\<close> is a keyword the caller does not pass; \<open>None\<close> in a pattern is
  Python's \<^verbatim>\<open>None\<close>, which click passes for an option that is not given.
\<close>

record list_kwargs =
  kw_all :: "bool option"
  kw_database_pattern :: "string option"
  kw_exclude_database_pattern :: "string option"
  kw_table_pattern :: "string option"
  kw_exclude_table_pattern :: "string option"
  kw_is_readonly :: "bool option"

type_synonym reader = "list_kwargs \<Rightarrow> exn + replica list"

subsection \<open>The mutating client and its dry-run gate\<close>

text \<open>
  Modelled from the spec: \<^verbatim>\<open>restart_table_replica\<close> and \<^verbatim>\<open>restore_table_replica\<close>
  (module \<^verbatim>\<open>ch_tools.chadmin.internal.table_replica\<close>) are missing from the sources.
  Sections 4.4 and 4.5: each takes a database/table identity and an optional cluster
  annotation and returns success or a failure carrying the engine's raw message; in
  dry-run mode the call is recorded as an intended action (identity, operation name,
  cluster annotation) and a synthetic success is returned without contacting the engine.
\<close>

definition execute_ddl :: "engine \<Rightarrow> bool \<Rightarrow> call \<Rightarrow> stmt" where
  "execute_ddl eng dry_run c w =
     (if dry_run then (None, w\<lparr>intended := intended w @ [c]\<rparr>)
      else (eng (sent w) c, w\<lparr>sent := sent w @ [c]\<rparr>))"

definition restart_table_replica ::
  "engine \<Rightarrow> string \<Rightarrow> string \<Rightarrow> string option \<Rightarrow> bool \<Rightarrow> stmt" where
  "restart_table_replica eng database_name table_name cluster dry_run =
     execute_ddl eng dry_run (Call Restart database_name table_name cluster)"

definition restore_table_replica ::
  "engine \<Rightarrow> string \<Rightarrow> string \<Rightarrow> string option \<Rightarrow> bool \<Rightarrow> stmt" where
  "restore_table_replica eng database_name table_name cluster dry_run =
     execute_ddl eng dry_run (Call Restore database_name table_name cluster)"

subsection \<open>The restart command\<close>

text \<open>
  \<^verbatim>\<open>restart_replica_command(ctx, on_cluster, dry_run, **kwargs)\<close>: the loop of lines
  163-170. The flag \<^verbatim>\<open>_all\<close> is not a named parameter, so it stays in \<^verbatim>\<open>kwargs\<close> and is
  passed on to \<^verbatim>\<open>list_table_replicas\<close>; \<^verbatim>\<open>is_readonly\<close> is not passed.
\<close>

fun restart_loop :: "engine \<Rightarrow> string option \<Rightarrow> bool \<Rightarrow> replica list \<Rightarrow> stmt" where
  "restart_loop eng cluster dry_run [] w = (None, w)"
| "restart_loop eng cluster dry_run (r # rs) w =
     seq (restart_table_replica eng (database r) (table r) cluster dry_run)
         (restart_loop eng cluster dry_run rs) w"

definition restart_kwargs :: "bool \<Rightarrow> selection \<Rightarrow> list_kwargs" where
  "restart_kwargs all_flag kwargs =
     \<lparr>kw_all = Some all_flag,
      kw_database_pattern = database_pattern kwargs,
      kw_exclude_database_pattern = exclude_database_pattern kwargs,
      kw_table_pattern = table_pattern kwargs,
      kw_exclude_table_pattern = exclude_table_pattern kwargs,
      kw_is_readonly = None\<rparr>"

definition restart_replica_command ::
  "reader \<Rightarrow> engine \<Rightarrow> ctx \<Rightarrow> bool \<Rightarrow> bool \<Rightarrow> bool \<Rightarrow> selection \<Rightarrow> stmt" where
  "restart_replica_command list_replicas eng c all_flag on_cluster dry_run kwargs w =
     (let cluster = (if on_cluster then Some (cluster_name c) else None) in
      case list_replicas (restart_kwargs all_flag kwargs) of
        Inl e \<Rightarrow> (Some e, w)
      | Inr replicas \<Rightarrow> restart_loop eng cluster dry_run replicas w)"

subsection \<open>The restore command\<close>

text \<open>
  The handler of lines 240-274, entered with the message of the caught
  \<^verbatim>\<open>ClickhouseError\<close>. \<^verbatim>\<open>needle in msg\<close> is \<^const>\<open>sublist\<close>. An exception raised
  inside the handler is not caught again; the bare \<^verbatim>\<open>raise\<close> re-raises the caught one.
  The two \<^verbatim>\<open>logging.warning\<close> calls only write to the log and are left out.
\<close>

definition recover :: "engine \<Rightarrow> string option \<Rightarrow> bool \<Rightarrow> replica \<Rightarrow> string \<Rightarrow> stmt" where
  "recover eng cluster dry_run r msg w =
     (if sublist ''Replica has metadata in ZooKeeper'' msg \<or> sublist ''NO_ZOOKEEPER'' msg then
        seq (restart_table_replica eng (database r) (table r) cluster dry_run)
            (restore_table_replica eng (database r) (table r) cluster dry_run) w
      else if sublist ''Replica path is present'' msg then
        restart_table_replica eng (database r) (table r) cluster dry_run w
      else (Some (ClickhouseError msg), w))"

text \<open>The body of the loop, lines 232-274.\<close>

definition restore_step :: "engine \<Rightarrow> string option \<Rightarrow> bool \<Rightarrow> replica \<Rightarrow> stmt" where
  "restore_step eng cluster dry_run r w =
     (case restore_table_replica eng (database r) (table r) cluster dry_run w of
        (None, w1) \<Rightarrow> (None, w1)
      | (Some (ClickhouseError msg), w1) \<Rightarrow> recover eng cluster dry_run r msg w1
      | (Some (OtherException x), w1) \<Rightarrow> (Some (OtherException x), w1))"

fun restore_loop :: "engine \<Rightarrow> string option \<Rightarrow> bool \<Rightarrow> replica list \<Rightarrow> stmt" where
  "restore_loop eng cluster dry_run [] w = (None, w)"
| "restore_loop eng cluster dry_run (r # rs) w =
     seq (restore_step eng cluster dry_run r) (restore_loop eng cluster dry_run rs) w"

text \<open>
  \<^verbatim>\<open>restore_command(ctx, _all, on_cluster, dry_run, **kwargs)\<close>: \<^verbatim>\<open>_all\<close> is bound by
  name, so \<^verbatim>\<open>kwargs\<close> holds the four patterns only, and the catalog is read with
  \<^verbatim>\<open>is_readonly=True\<close> (line 230).
\<close>

definition restore_kwargs :: "selection \<Rightarrow> list_kwargs" where
  "restore_kwargs kwargs =
     \<lparr>kw_all = None,
      kw_database_pattern = database_pattern kwargs,
      kw_exclude_database_pattern = exclude_database_pattern kwargs,
      kw_table_pattern = table_pattern kwargs,
      kw_exclude_table_pattern = exclude_table_pattern kwargs,
      kw_is_readonly = Some True\<rparr>"

definition restore_command ::
  "reader \<Rightarrow> engine \<Rightarrow> ctx \<Rightarrow> bool \<Rightarrow> bool \<Rightarrow> bool \<Rightarrow> selection \<Rightarrow> stmt" where
  "restore_command list_replicas eng c all_flag on_cluster dry_run kwargs w =
     (let cluster = (if on_cluster then Some (cluster_name c) else None) in
      case list_replicas (restore_kwargs kwargs) of
        Inl e \<Rightarrow> (Some e, w)
      | Inr ro_replicas \<Rightarrow> restore_loop eng cluster dry_run ro_replicas w)"

subsection \<open>Classification as the specification words it\<close>

text \<open>
  Section 9 of the specification describes the classification as an ordered list of
  (needle, outcome) pairs, checked in the order of section 4.3. This second definition
  follows those words; it is compared below with the handler \<^const>\<open>recover\<close>.
\<close>

datatype recovery_outcome = RecoverableA | RecoverableB | Unclassified

definition needles :: "(string \<times> recovery_outcome) list" where
  "needles =
     [(''Replica has metadata in ZooKeeper'', RecoverableA),
      (''NO_ZOOKEEPER'', RecoverableA),
      (''Replica path is present'', RecoverableB)]"

fun first_match :: "(string \<times> recovery_outcome) list \<Rightarrow> string \<Rightarrow> recovery_outcome" where
  "first_match [] msg = Unclassified"
| "first_match ((needle, outcome) # rest) msg =
     (if sublist needle msg then outcome else first_match rest msg)"

definition classify :: "string \<Rightarrow> recovery_outcome" where
  "classify msg = first_match needles msg"

subsection \<open>Selector and catalog reader\<close>

text \<open>
  Modelled from the spec: the pattern matching behind \<^verbatim>\<open>list_table_replicas\<close> (module
  \<^verbatim>\<open>ch_tools.chadmin.internal.table_replica\<close>) is missing from the sources. Sections 3,
  4.1 and 8: a pattern with a comma is a list pattern, split on the comma, each element
  trimmed, and the trimmed candidate tested for membership; a pattern without a comma is
  a glob pattern in the style of SQL LIKE, where \<open>%\<close> stands for any sequence of
  characters (also the empty one) and \<open>_\<close> for exactly one character. Whitespace is
  what Python's \<^verbatim>\<open>str.strip\<close> removes from an ASCII string.
\<close>

definition is_space :: "char \<Rightarrow> bool" where
  "is_space c = (c = CHR '' '' \<or> c = CHR 0x09 \<or> c = CHR 0x0A \<or> c = CHR 0x0B
     \<or> c = CHR 0x0C \<or> c = CHR 0x0D)"

definition strip :: "string \<Rightarrow> string" where
  "strip s = rev (dropWhile is_space (rev (dropWhile is_space s)))"

fun split_on :: "char \<Rightarrow> string \<Rightarrow> string list" where
  "split_on c [] = [[]]"
| "split_on c (x # xs) =
     (if x = c then [] # split_on c xs
      else (case split_on c xs of [] \<Rightarrow> [[x]] | y # ys \<Rightarrow> (x # y) # ys))"

fun like_match :: "string \<Rightarrow> string \<Rightarrow> bool" where
  "like_match [] v = (v = [])"
| "like_match (p # ps) [] = (p = CHR ''%'' \<and> like_match ps [])"
| "like_match (p # ps) (c # cs) =
     (if p = CHR ''%'' then like_match ps (c # cs) \<or> like_match (p # ps) cs
      else if p = CHR ''_'' then like_match ps cs
      else p = c \<and> like_match ps cs)"

definition matchOne :: "string \<Rightarrow> string \<Rightarrow> bool" where
  "matchOne v p =
     (if CHR '','' \<in> set p then List.member (map strip (split_on CHR '','' p)) (strip v)
      else like_match p v)"

text \<open>
  The strings a glob pattern stands for, read off the words of the specification: the
  declarative counterpart of \<^const>\<open>like_match\<close>.
\<close>

fun glob_lang :: "string \<Rightarrow> string set" where
  "glob_lang [] = {[]}"
| "glob_lang (p # ps) =
     (if p = CHR ''%'' then {u @ w | u w. w \<in> glob_lang ps}
      else if p = CHR ''_'' then {c # w | c w. w \<in> glob_lang ps}
      else {p # w | w. w \<in> glob_lang ps})"

text \<open>
  Modelled from the spec: section 4.1, \<open>matches(v) = matchOne(v, include) AND NOT
  matchOne(v, exclude)\<close>, an absent include matching everything and an absent exclude
  nothing.
\<close>

definition matches :: "string \<Rightarrow> string option \<Rightarrow> string option \<Rightarrow> bool" where
  "matches v incl excl =
     ((case incl of None \<Rightarrow> True | Some p \<Rightarrow> matchOne v p)
      \<and> \<not> (case excl of None \<Rightarrow> False | Some p \<Rightarrow> matchOne v p))"

text \<open>
  Modelled from the spec: \<^verbatim>\<open>list_table_replicas\<close> is missing from the sources. Sections
  4.1 and 4.2: the dimensions database and table combine with AND, the read-only flag,
  when set, additionally requires \<open>isReadOnly\<close>, and the rows come in the order of the
  catalog. The specification gives the flag \<^verbatim>\<open>_all\<close> no part in the predicate.
\<close>

definition selected :: "list_kwargs \<Rightarrow> replica \<Rightarrow> bool" where
  "selected kw r =
     (matches (database r) (kw_database_pattern kw) (kw_exclude_database_pattern kw)
      \<and> matches (table r) (kw_table_pattern kw) (kw_exclude_table_pattern kw)
      \<and> (if kw_is_readonly kw = Some True then is_readonly r else True))"

definition list_table_replicas :: "replica list \<Rightarrow> reader" where
  "list_table_replicas catalog kw = Inr (filter (selected kw) catalog)"

subsection \<open>Calls made between two worlds\<close>

text \<open>
  \<open>only_calls S w w'\<close>: the world \<open>w'\<close> extends \<open>w\<close>, and every call sent or
  recorded on the way from \<open>w\<close> to \<open>w'\<close> is one of \<open>S\<close>.
\<close>

definition only_calls :: "call set \<Rightarrow> world \<Rightarrow> world \<Rightarrow> bool" where
  "only_calls S w w' =
     (\<exists>cs ds. sent w' = sent w @ cs \<and> intended w' = intended w @ ds
        \<and> set cs \<subseteq> S \<and> set ds \<subseteq> S)"

text \<open>The calls that name a replica, whatever the operation.\<close>

definition calls_on :: "string option \<Rightarrow> replica \<Rightarrow> call set" where
  "calls_on cluster r =
     {Call Restart (database r) (table r) cluster, Call Restore (database r) (table r) cluster}"

subsection \<open>Sample inputs\<close>

definition events_replica :: replica where
  "events_replica = \<lparr>database = ''shard1'', table = ''events'', is_readonly = True\<rparr>"

definition visits_replica :: replica where
  "visits_replica = \<lparr>database = ''shard1'', table = ''visits'', is_readonly = True\<rparr>"

definition hits_replica :: replica where
  "hits_replica = \<lparr>database = ''shard2'', table = ''hits'', is_readonly = False\<rparr>"

definition fresh :: world where
  "fresh = \<lparr>sent = [], intended = []\<rparr>"

definition no_selection :: selection where
  "no_selection =
     \<lparr>database_pattern = None, exclude_database_pattern = None,
      table_pattern = None, exclude_table_pattern = None\<rparr>"

definition local_ctx :: ctx where
  "local_ctx = \<lparr>cluster_name = ''main''\<rparr>"

text \<open>An engine that never fails.\<close>

definition healthy :: engine where
  "healthy history c = None"

text \<open>An engine whose first call fails with the given message; every later call succeeds.\<close>

definition fails_first :: "string \<Rightarrow> engine" where
  "fails_first msg history c = (if history = [] then Some (ClickhouseError msg) else None)"

text \<open>An engine whose first call fails with the first message and whose second call with the second.\<close>

definition fails_twice :: "string \<Rightarrow> string \<Rightarrow> engine" where
  "fails_twice msg1 msg2 history c =
     (if history = [] then Some (ClickhouseError msg1)
      else if length history = 1 then Some (ClickhouseError msg2)
      else None)"

text \<open>An engine whose call number \<open>n\<close> (from 0) fails with the given message.\<close>

definition fails_at :: "nat \<Rightarrow> string \<Rightarrow> engine" where
  "fails_at n msg history c = (if length history = n then Some (ClickhouseError msg) else None)"

text \<open>A catalog read that returns the writable replica only when \<^verbatim>\<open>_all\<close> is passed and set.\<close>

definition all_sensitive :: reader where
  "all_sensitive kw =
     (if kw_all kw = Some True then Inr [events_replica, hits_replica] else Inr [events_replica])"

section \<open>Properties\<close>

subsection \<open>Auxiliary facts\<close>

lemma execute_ddl_wet: "execute_ddl eng False c w = (eng (sent w) c, w\<lparr>sent := sent w @ [c]\<rparr>)"
  by (simp add: execute_ddl_def)

lemma execute_ddl_dry: "execute_ddl eng True c w = (None, w\<lparr>intended := intended w @ [c]\<rparr>)"
  by (simp add: execute_ddl_def)

lemma restore_wet:
  "restore_table_replica eng d t cl False w =
     (eng (sent w) (Call Restore d t cl), w\<lparr>sent := sent w @ [Call Restore d t cl]\<rparr>)"
  by (simp add: restore_table_replica_def execute_ddl_wet)

lemma restart_wet:
  "restart_table_replica eng d t cl False w =
     (eng (sent w) (Call Restart d t cl), w\<lparr>sent := sent w @ [Call Restart d t cl]\<rparr>)"
  by (simp add: restart_table_replica_def execute_ddl_wet)

lemma restore_step_caught:
  "eng (sent w) (Call Restore (database r) (table r) cl) = Some (ClickhouseError msg) \<Longrightarrow>
   restore_step eng cl False r w =
     recover eng cl False r msg (w\<lparr>sent := sent w @ [Call Restore (database r) (table r) cl]\<rparr>)"
  by (simp add: restore_step_def restore_wet)

lemma recover_a:
  "sublist ''Replica has metadata in ZooKeeper'' msg \<or> sublist ''NO_ZOOKEEPER'' msg \<Longrightarrow>
   recover eng cl False r msg w =
     (case eng (sent w) (Call Restart (database r) (table r) cl) of
        Some e \<Rightarrow> (Some e, w\<lparr>sent := sent w @ [Call Restart (database r) (table r) cl]\<rparr>)
      | None \<Rightarrow>
          (eng (sent w @ [Call Restart (database r) (table r) cl])
             (Call Restore (database r) (table r) cl),
           w\<lparr>sent := sent w @ [Call Restart (database r) (table r) cl,
                Call Restore (database r) (table r) cl]\<rparr>))"
  by (simp add: recover_def seq_def restart_wet restore_wet split: option.split)

lemma recover_b:
  "\<not> sublist ''Replica has metadata in ZooKeeper'' msg \<Longrightarrow> \<not> sublist ''NO_ZOOKEEPER'' msg \<Longrightarrow>
   sublist ''Replica path is present'' msg \<Longrightarrow>
   recover eng cl False r msg w =
     (eng (sent w) (Call Restart (database r) (table r) cl),
      w\<lparr>sent := sent w @ [Call Restart (database r) (table r) cl]\<rparr>)"
  by (simp add: recover_def restart_wet)

lemma recover_other:
  "\<not> sublist ''Replica has metadata in ZooKeeper'' msg \<Longrightarrow> \<not> sublist ''NO_ZOOKEEPER'' msg \<Longrightarrow>
   \<not> sublist ''Replica path is present'' msg \<Longrightarrow>
   recover eng cl dry r msg w = (Some (ClickhouseError msg), w)"
  by (simp add: recover_def)

lemma restore_loop_append:
  "restore_loop eng cl dry (xs @ ys) w =
     seq (restore_loop eng cl dry xs) (restore_loop eng cl dry ys) w"
proof (induction xs arbitrary: w)
  case Nil
  show ?case by (simp add: seq_def)
next
  case (Cons x xs)
  show ?case
  proof (cases "restore_step eng cl dry x w")
    case (Pair res w1)
    then show ?thesis using Cons.IH [of w1] by (cases res) (simp_all add: seq_def)
  qed
qed

lemma classify_eq:
  "classify msg =
     (if sublist ''Replica has metadata in ZooKeeper'' msg \<or> sublist ''NO_ZOOKEEPER'' msg
      then RecoverableA
      else if sublist ''Replica path is present'' msg then RecoverableB else Unclassified)"
  by (simp add: classify_def needles_def)

lemma restart_loop_wet:
  "\<exists>n\<le>length rs.
     (\<forall>i<n. eng (sent w @ map (\<lambda>r. Call Restart (database r) (table r) cl) (take i rs))
               (Call Restart (database (rs ! i)) (table (rs ! i)) cl) = None)
     \<and> (if n = length rs
        then restart_loop eng cl False rs w =
               (None, w\<lparr>sent := sent w @ map (\<lambda>r. Call Restart (database r) (table r) cl) rs\<rparr>)
        else \<exists>e. eng (sent w @ map (\<lambda>r. Call Restart (database r) (table r) cl) (take n rs))
                    (Call Restart (database (rs ! n)) (table (rs ! n)) cl) = Some e
                \<and> restart_loop eng cl False rs w =
                    (Some e, w\<lparr>sent := sent w
                       @ map (\<lambda>r. Call Restart (database r) (table r) cl) (take (Suc n) rs)\<rparr>))"
proof (induction rs arbitrary: w)
  case Nil
  show ?case by simp
next
  case (Cons r rs)
  let ?f = "\<lambda>r. Call Restart (database r) (table r) cl"
  show ?case
  proof (cases "eng (sent w) (?f r)")
    case (Some e)
    then have "restart_loop eng cl False (r # rs) w = (Some e, w\<lparr>sent := sent w @ [?f r]\<rparr>)"
      by (simp add: seq_def restart_wet)
    with Some show ?thesis
      by (intro exI [of _ 0]) simp
  next
    case None
    let ?w = "w\<lparr>sent := sent w @ [?f r]\<rparr>"
    from None have step: "restart_loop eng cl False (r # rs) w = restart_loop eng cl False rs ?w"
      by (simp add: seq_def restart_wet)
    from Cons.IH [of ?w] obtain n where n: "n \<le> length rs"
      and before: "\<forall>i<n. eng (sent ?w @ map ?f (take i rs)) (?f (rs ! i)) = None"
      and at: "if n = length rs
        then restart_loop eng cl False rs ?w = (None, ?w\<lparr>sent := sent ?w @ map ?f rs\<rparr>)
        else \<exists>e. eng (sent ?w @ map ?f (take n rs)) (?f (rs ! n)) = Some e
                \<and> restart_loop eng cl False rs ?w =
                    (Some e, ?w\<lparr>sent := sent ?w @ map ?f (take (Suc n) rs)\<rparr>)"
      by blast
    have before': "\<forall>i<Suc n. eng (sent w @ map ?f (take i (r # rs))) (?f ((r # rs) ! i)) = None"
    proof (intro allI impI)
      fix i assume "i < Suc n"
      show "eng (sent w @ map ?f (take i (r # rs))) (?f ((r # rs) ! i)) = None"
      proof (cases i)
        case 0
        with None show ?thesis by simp
      next
        case (Suc j)
        with \<open>i < Suc n\<close> have "j < n" by simp
        with before have "eng (sent ?w @ map ?f (take j rs)) (?f (rs ! j)) = None" by blast
        with Suc show ?thesis by simp
      qed
    qed
    show ?thesis
    proof (intro exI [of _ "Suc n"] conjI)
      show "Suc n \<le> length (r # rs)" using n by simp
      show "\<forall>i<Suc n. eng (sent w @ map ?f (take i (r # rs))) (?f ((r # rs) ! i)) = None"
        by (rule before')
      show "if Suc n = length (r # rs)
        then restart_loop eng cl False (r # rs) w = (None, w\<lparr>sent := sent w @ map ?f (r # rs)\<rparr>)
        else \<exists>e. eng (sent w @ map ?f (take (Suc n) (r # rs))) (?f ((r # rs) ! Suc n)) = Some e
                \<and> restart_loop eng cl False (r # rs) w =
                    (Some e, w\<lparr>sent := sent w @ map ?f (take (Suc (Suc n)) (r # rs))\<rparr>)"
        using at step by (auto split: if_splits)
    qed
  qed
qed

lemma restore_loop_dry:
  "restore_loop eng cl True rs w =
     (None, w\<lparr>intended := intended w @ map (\<lambda>r. Call Restore (database r) (table r) cl) rs\<rparr>)"
proof (induction rs arbitrary: w)
  case Nil
  show ?case by simp
next
  case (Cons r rs)
  have "restore_step eng cl True r w =
      (None, w\<lparr>intended := intended w @ [Call Restore (database r) (table r) cl]\<rparr>)"
    by (simp add: restore_step_def restore_table_replica_def execute_ddl_dry)
  then show ?case
    by (simp add: seq_def Cons.IH)
qed

lemma restart_loop_dry:
  "restart_loop eng cl True rs w =
     (None, w\<lparr>intended := intended w @ map (\<lambda>r. Call Restart (database r) (table r) cl) rs\<rparr>)"
proof (induction rs arbitrary: w)
  case Nil
  show ?case by simp
next
  case (Cons r rs)
  have "restart_table_replica eng (database r) (table r) cl True w =
      (None, w\<lparr>intended := intended w @ [Call Restart (database r) (table r) cl]\<rparr>)"
    by (simp add: restart_table_replica_def execute_ddl_dry)
  then show ?case
    by (simp add: seq_def Cons.IH)
qed

lemma only_calls_refl: "only_calls S w w"
  by (simp add: only_calls_def)

lemma only_calls_trans:
  assumes "only_calls S w w1" and "only_calls S w1 w2"
  shows "only_calls S w w2"
proof -
  from assms(1) obtain cs1 ds1 where 1: "sent w1 = sent w @ cs1" "intended w1 = intended w @ ds1"
    "set cs1 \<subseteq> S" "set ds1 \<subseteq> S"
    unfolding only_calls_def by blast
  from assms(2) obtain cs2 ds2 where 2: "sent w2 = sent w1 @ cs2" "intended w2 = intended w1 @ ds2"
    "set cs2 \<subseteq> S" "set ds2 \<subseteq> S"
    unfolding only_calls_def by blast
  have "sent w2 = sent w @ (cs1 @ cs2) \<and> intended w2 = intended w @ (ds1 @ ds2)
      \<and> set (cs1 @ cs2) \<subseteq> S \<and> set (ds1 @ ds2) \<subseteq> S"
    using 1 2 by simp
  then show ?thesis
    unfolding only_calls_def by blast
qed

lemma only_calls_mono: "only_calls S w w' \<Longrightarrow> S \<subseteq> T \<Longrightarrow> only_calls T w w'"
  unfolding only_calls_def by blast

lemma execute_ddl_calls: "c \<in> S \<Longrightarrow> only_calls S w (snd (execute_ddl eng dry c w))"
  by (simp add: execute_ddl_def only_calls_def)

lemma seq_calls:
  assumes "\<And>w. only_calls S w (snd (m1 w))" and "\<And>w. only_calls S w (snd (m2 w))"
  shows "only_calls S w (snd (seq m1 m2 w))"
proof (cases "m1 w")
  case (Pair res w1)
  with assms(1) [of w] have 1: "only_calls S w w1" by simp
  show ?thesis
  proof (cases res)
    case None
    with Pair have "seq m1 m2 w = m2 w1" by (simp add: seq_def)
    with only_calls_trans [OF 1 assms(2) [of w1]] show ?thesis by simp
  next
    case (Some e)
    with Pair have "seq m1 m2 w = (Some e, w1)" by (simp add: seq_def)
    with 1 show ?thesis by simp
  qed
qed

lemma restart_calls:
  "only_calls (calls_on cl r) w (snd (restart_table_replica eng (database r) (table r) cl dry w))"
  unfolding restart_table_replica_def by (rule execute_ddl_calls) (simp add: calls_on_def)

lemma restore_calls:
  "only_calls (calls_on cl r) w (snd (restore_table_replica eng (database r) (table r) cl dry w))"
  unfolding restore_table_replica_def by (rule execute_ddl_calls) (simp add: calls_on_def)

lemma recover_calls: "only_calls (calls_on cl r) w (snd (recover eng cl dry r msg w))"
  unfolding recover_def
  by (simp add: seq_calls restart_calls restore_calls only_calls_refl)

lemma restore_step_calls: "only_calls (calls_on cl r) w (snd (restore_step eng cl dry r w))"
proof (cases "restore_table_replica eng (database r) (table r) cl dry w")
  case (Pair res w1)
  with restore_calls [of cl r w eng dry] have 1: "only_calls (calls_on cl r) w w1" by simp
  show ?thesis
  proof (cases res)
    case None
    with Pair 1 show ?thesis by (simp add: restore_step_def)
  next
    case (Some e)
    show ?thesis
    proof (cases e)
      case (OtherException x)
      with Some Pair 1 show ?thesis by (simp add: restore_step_def)
    next
      case (ClickhouseError msg)
      with Some Pair have "restore_step eng cl dry r w = recover eng cl dry r msg w1"
        by (simp add: restore_step_def)
      with only_calls_trans [OF 1 recover_calls [of cl r w1 eng dry msg]] show ?thesis by simp
    qed
  qed
qed

lemma restore_loop_calls:
  "only_calls (\<Union>r\<in>set rs. calls_on cl r) w (snd (restore_loop eng cl dry rs w))"
proof (induction rs arbitrary: w)
  case Nil
  show ?case by (simp add: only_calls_refl)
next
  case (Cons r rs)
  let ?S = "\<Union>x\<in>set (r # rs). calls_on cl x"
  have 1: "only_calls ?S w (snd (restore_step eng cl dry r w))" for w
    by (rule only_calls_mono [OF restore_step_calls]) auto
  have 2: "only_calls ?S w (snd (restore_loop eng cl dry rs w))" for w
    by (rule only_calls_mono [OF Cons.IH]) auto
  show ?case
    using seq_calls [of ?S "restore_step eng cl dry r" "restore_loop eng cl dry rs" w, OF 1 2]
    by simp
qed

lemma glob_lang_percent:
  "c # cs \<in> glob_lang (CHR ''%'' # ps) \<longleftrightarrow>
     c # cs \<in> glob_lang ps \<or> cs \<in> glob_lang (CHR ''%'' # ps)"
proof
  assume "c # cs \<in> glob_lang (CHR ''%'' # ps)"
  then obtain u w where uw: "c # cs = u @ w" "w \<in> glob_lang ps" by auto
  show "c # cs \<in> glob_lang ps \<or> cs \<in> glob_lang (CHR ''%'' # ps)"
  proof (cases u)
    case Nil
    with uw show ?thesis by simp
  next
    case (Cons a u')
    with uw have "cs = u' @ w" by simp
    with uw(2) show ?thesis by auto
  qed
next
  assume "c # cs \<in> glob_lang ps \<or> cs \<in> glob_lang (CHR ''%'' # ps)"
  then show "c # cs \<in> glob_lang (CHR ''%'' # ps)"
  proof
    assume "c # cs \<in> glob_lang ps"
    then have "c # cs = [] @ (c # cs) \<and> c # cs \<in> glob_lang ps" by simp
    then show ?thesis by (simp del: append_Nil) blast
  next
    assume "cs \<in> glob_lang (CHR ''%'' # ps)"
    then obtain u w where "cs = u @ w" "w \<in> glob_lang ps" by auto
    then have "c # cs = (c # u) @ w \<and> w \<in> glob_lang ps" by simp
    then show ?thesis by (simp del: append_Cons) blast
  qed
qed

lemma like_match_lang: "like_match p v \<longleftrightarrow> v \<in> glob_lang p"
proof (induction p v rule: like_match.induct)
  case (1 v)
  show ?case by auto
next
  case (2 p ps)
  then show ?case by auto
next
  case (3 p ps c cs)
  show ?case
  proof (cases "p = CHR ''%''")
    case True
    with 3 show ?thesis
      using glob_lang_percent [of c cs ps] by simp
  next
    case False
    with 3 show ?thesis by auto
  qed
qed

text \<open>What \<^const>\<open>split_on\<close> and \<^const>\<open>strip\<close> compute.\<close>

lemma split_on_not_Nil: "split_on c s \<noteq> []"
  by (induction s) (auto split: list.split)

lemma split_on_no_separator: "x \<in> set (split_on c s) \<Longrightarrow> c \<notin> set x"
proof (induction s arbitrary: x)
  case Nil
  then show ?case by simp
next
  case (Cons a s)
  then show ?case
    by (cases "split_on c s") (auto split: if_splits)
qed

lemma split_on_length: "length (split_on c s) = Suc (count_list s c)"
proof (induction s)
  case Nil
  show ?case by simp
next
  case (Cons a s)
  then show ?case by (cases "split_on c s") auto
qed

lemma strip_suffix:
  "dropWhile is_space s =
     strip s @ rev (takeWhile is_space (rev (dropWhile is_space s)))"
proof -
  let ?t = "dropWhile is_space s"
  have "?t = rev (takeWhile is_space (rev ?t) @ dropWhile is_space (rev ?t))"
    by (simp only: takeWhile_dropWhile_id rev_rev_ident)
  then show ?thesis
    by (simp only: rev_append strip_def)
qed

lemma strip_decomposition:
  "\<exists>a b. s = a @ strip s @ b \<and> list_all is_space a \<and> list_all is_space b"
proof -
  let ?a = "takeWhile is_space s"
  let ?b = "rev (takeWhile is_space (rev (dropWhile is_space s)))"
  have "s = ?a @ dropWhile is_space s" by simp
  with strip_suffix [of s] have "s = ?a @ strip s @ ?b" by simp
  moreover have "list_all is_space ?a"
    unfolding list_all_iff by (blast dest: set_takeWhileD)
  moreover have "list_all is_space ?b"
    unfolding list_all_iff set_rev by (blast dest: set_takeWhileD)
  ultimately show ?thesis by blast
qed

lemma strip_ends:
  "strip s = [] \<or> (\<not> is_space (hd (strip s)) \<and> \<not> is_space (last (strip s)))"
proof (cases "strip s = []")
  case True
  then show ?thesis by simp
next
  case False
  let ?t = "dropWhile is_space s"
  let ?u = "dropWhile is_space (rev ?t)"
  have u: "?u \<noteq> []" using False by (simp add: strip_def)
  then have "\<not> is_space (hd ?u)" by (rule hd_dropWhile)
  with u have l: "\<not> is_space (last (strip s))" by (simp add: strip_def last_rev)
  have t: "?t \<noteq> []"
  proof
    assume "?t = []"
    then have "?u = []" by (simp only: rev.simps dropWhile.simps)
    with u show False by (simp only: not_True_eq_False simp_thms)
  qed
  then have "\<not> is_space (hd ?t)" by (rule hd_dropWhile)
  moreover from strip_suffix [of s] False have "hd ?t = hd (strip s)"
    by (metis hd_append2)
  ultimately show ?thesis using l by simp
qed

lemma strip_idem: "strip (strip s) = strip s"
proof (cases "strip s = []")
  case True
  have "strip [] = []" by (simp add: strip_def)
  with True show ?thesis by simp
next
  case False
  with strip_ends [of s] have h: "\<not> is_space (hd (strip s))" and l: "\<not> is_space (last (strip s))"
    by simp_all
  from False h have 1: "dropWhile is_space (strip s) = strip s"
    by (cases "strip s") simp_all
  from False l have 2: "dropWhile is_space (rev (strip s)) = rev (strip s)"
    by (cases "rev (strip s)") (simp_all add: last_rev [symmetric] hd_rev)
  show ?thesis
    unfolding strip_def [of "strip s"] 1 2 by simp
qed

subsection \<open>The restore flow\<close>

text \<open>
  C1 (as amended). In the restore flow, when the restore attempt on a replica fails with
  a \<^verbatim>\<open>ClickhouseError\<close> whose message contains \<^verbatim>\<open>Replica has metadata in ZooKeeper\<close> or
  \<^verbatim>\<open>NO_ZOOKEEPER\<close>, the remediation is \<open>restart(database, table, cluster)\<close> followed
  by one \<open>restore(database, table, cluster)\<close>: two calls in that order after the
  failed attempt. The restore of the remediation is issued only when the restart
  returns; when the restart raises, its exception leaves the loop body and no restore
  follows. The outcome of the loop body is the outcome of the last call issued.
\<close>

theorem recoverable_a_remediation:
  assumes "eng (sent w) (Call Restore (database r) (table r) cl) = Some (ClickhouseError msg)"
    and "sublist ''Replica has metadata in ZooKeeper'' msg \<or> sublist ''NO_ZOOKEEPER'' msg"
  shows "restore_step eng cl False r w =
     (case eng (sent w @ [Call Restore (database r) (table r) cl])
             (Call Restart (database r) (table r) cl) of
        Some e \<Rightarrow>
          (Some e, w\<lparr>sent := sent w @ [Call Restore (database r) (table r) cl,
                        Call Restart (database r) (table r) cl]\<rparr>)
      | None \<Rightarrow>
          (eng (sent w @ [Call Restore (database r) (table r) cl,
                  Call Restart (database r) (table r) cl])
             (Call Restore (database r) (table r) cl),
           w\<lparr>sent := sent w @ [Call Restore (database r) (table r) cl,
                Call Restart (database r) (table r) cl,
                Call Restore (database r) (table r) cl]\<rparr>))"
  using assms by (simp add: restore_step_caught recover_a split: option.split)

theorem recoverable_a_remediation_witness:
  "restore_step (fails_first ''Replica has metadata in ZooKeeper'') None False events_replica fresh =
     (None, \<lparr>sent = [Call Restore ''shard1'' ''events'' None,
                      Call Restart ''shard1'' ''events'' None,
                      Call Restore ''shard1'' ''events'' None], intended = []\<rparr>)"
  using recoverable_a_remediation [of "fails_first ''Replica has metadata in ZooKeeper''" fresh
      events_replica None "''Replica has metadata in ZooKeeper''"]
  by (simp add: fails_first_def fresh_def events_replica_def)

text \<open>
  The claim as worded asks for three calls after the failed attempt (restart, restore,
  restore), the last one unconditional. At the replica \<open>shard1.events\<close>, with an engine
  whose first call fails with the ZooKeeper message, the calls after the failed attempt
  are restart and one restore; with an engine whose restart fails too, the restart is
  the only call after the failed attempt.
\<close>

theorem three_call_remediation_counterexample:
  "tl (sent (snd (restore_step (fails_first ''Replica has metadata in ZooKeeper'') None False
        events_replica fresh)))
     = [Call Restart ''shard1'' ''events'' None, Call Restore ''shard1'' ''events'' None]
   \<and> tl (sent (snd (restore_step (fails_first ''Replica has metadata in ZooKeeper'') None False
        events_replica fresh)))
     \<noteq> [Call Restart ''shard1'' ''events'' None, Call Restore ''shard1'' ''events'' None,
         Call Restore ''shard1'' ''events'' None]
   \<and> tl (sent (snd (restore_step (fails_twice ''NO_ZOOKEEPER'' ''Timeout exceeded'') None False
        events_replica fresh)))
     = [Call Restart ''shard1'' ''events'' None]"
  by (simp add: restore_step_def restore_wet restart_wet recover_def seq_def fails_first_def
      fails_twice_def events_replica_def fresh_def)

text \<open>
  C2 (as amended). In the restore flow, when the restore attempt on a replica fails with
  a message of class RecoverableA or RecoverableB, the orchestrator advances to the
  next replica when every call of the remediation returns. A failure raised by a call
  of the remediation is not classified again: it propagates to the caller as it is, the
  calls made are those up to the failing one, and no call is made for the replicas that
  follow.
\<close>

theorem remediation_advances_or_propagates:
  assumes "eng (sent w) (Call Restore (database r) (table r) cl) = Some (ClickhouseError msg)"
    and "sublist ''Replica has metadata in ZooKeeper'' msg \<or> sublist ''NO_ZOOKEEPER'' msg
         \<or> sublist ''Replica path is present'' msg"
  shows "restore_loop eng cl False (r # rs) w =
     (case eng (sent w @ [Call Restore (database r) (table r) cl])
             (Call Restart (database r) (table r) cl) of
        Some e \<Rightarrow>
          (Some e, w\<lparr>sent := sent w @ [Call Restore (database r) (table r) cl,
                        Call Restart (database r) (table r) cl]\<rparr>)
      | None \<Rightarrow>
          if sublist ''Replica has metadata in ZooKeeper'' msg \<or> sublist ''NO_ZOOKEEPER'' msg
          then
            (case eng (sent w @ [Call Restore (database r) (table r) cl,
                         Call Restart (database r) (table r) cl])
                    (Call Restore (database r) (table r) cl) of
               Some e \<Rightarrow>
                 (Some e, w\<lparr>sent := sent w @ [Call Restore (database r) (table r) cl,
                               Call Restart (database r) (table r) cl,
                               Call Restore (database r) (table r) cl]\<rparr>)
             | None \<Rightarrow>
                 restore_loop eng cl False rs
                   (w\<lparr>sent := sent w @ [Call Restore (database r) (table r) cl,
                         Call Restart (database r) (table r) cl,
                         Call Restore (database r) (table r) cl]\<rparr>))
          else
            restore_loop eng cl False rs
              (w\<lparr>sent := sent w @ [Call Restore (database r) (table r) cl,
                    Call Restart (database r) (table r) cl]\<rparr>))"
proof (cases "sublist ''Replica has metadata in ZooKeeper'' msg \<or> sublist ''NO_ZOOKEEPER'' msg")
  case True
  then show ?thesis
    using assms(1)
    by (simp add: restore_step_caught recover_a seq_def split: option.split)
next
  case False
  with assms(2) have b: "sublist ''Replica path is present'' msg" by blast
  from False have na: "\<not> sublist ''Replica has metadata in ZooKeeper'' msg"
    and nz: "\<not> sublist ''NO_ZOOKEEPER'' msg" by simp_all
  show ?thesis
    using assms(1) False
    by (simp add: restore_step_caught recover_b [OF na nz b] seq_def split: option.split)
qed

theorem remediation_advances_or_propagates_witness:
  "restore_loop (fails_twice ''Replica path is present'' ''NO_ZOOKEEPER'') None False
     [events_replica, visits_replica] fresh =
     (Some (ClickhouseError ''NO_ZOOKEEPER''),
      \<lparr>sent = [Call Restore ''shard1'' ''events'' None, Call Restart ''shard1'' ''events'' None],
       intended = []\<rparr>)"
  using remediation_advances_or_propagates [of "fails_twice ''Replica path is present'' ''NO_ZOOKEEPER''"
      fresh events_replica None "''Replica path is present''" "[visits_replica]"]
  by (simp add: fails_twice_def fresh_def events_replica_def)

text \<open>
  The claim as worded has the run advance to the next replica also when the
  remediation fails, the failure not being surfaced. With the replicas \<open>shard1.events\<close>
  and \<open>shard1.visits\<close>, a restore that fails with \<^verbatim>\<open>Replica path is present\<close> and a
  restart that fails with \<^verbatim>\<open>Timeout exceeded\<close>, the command ends with the second
  failure and no call is made for \<open>shard1.visits\<close>.
\<close>

theorem remediation_failure_swallowed_counterexample:
  "restore_loop (fails_twice ''Replica path is present'' ''Timeout exceeded'') None False
     [events_replica, visits_replica] fresh =
     (Some (ClickhouseError ''Timeout exceeded''),
      \<lparr>sent = [Call Restore ''shard1'' ''events'' None, Call Restart ''shard1'' ''events'' None],
       intended = []\<rparr>)"
  by (simp add: restore_step_def restore_wet restart_wet recover_def seq_def
      fails_twice_def events_replica_def visits_replica_def fresh_def)

text \<open>
  C3. In the restore flow, when the replicas before \<open>r\<close> have been processed without an
  exception and the restore attempt on \<open>r\<close> fails with a message that contains none of
  the three needles, the command ends with that very failure, the failed restore is the
  last call made, and no call is made for any replica after \<open>r\<close>, however many were
  selected.
\<close>

theorem unclassified_failure_aborts:
  assumes "restore_loop eng cl False pre w = (None, w1)"
    and "eng (sent w1) (Call Restore (database r) (table r) cl) = Some (ClickhouseError msg)"
    and "\<not> sublist ''Replica has metadata in ZooKeeper'' msg"
    and "\<not> sublist ''NO_ZOOKEEPER'' msg"
    and "\<not> sublist ''Replica path is present'' msg"
  shows "restore_loop eng cl False (pre @ r # rs) w =
     (Some (ClickhouseError msg),
      w1\<lparr>sent := sent w1 @ [Call Restore (database r) (table r) cl]\<rparr>)"
proof -
  have "restore_step eng cl False r w1 =
      (Some (ClickhouseError msg), w1\<lparr>sent := sent w1 @ [Call Restore (database r) (table r) cl]\<rparr>)"
    using assms(2-5) by (simp add: restore_step_caught recover_other)
  then have "restore_loop eng cl False (r # rs) w1 =
      (Some (ClickhouseError msg), w1\<lparr>sent := sent w1 @ [Call Restore (database r) (table r) cl]\<rparr>)"
    by (simp add: seq_def)
  then show ?thesis
    using assms(1) by (simp add: restore_loop_append seq_def)
qed

theorem unclassified_failure_aborts_witness:
  "restore_loop (fails_at 1 ''some other error'') (Some ''main'') False
     [events_replica, visits_replica, hits_replica] fresh =
     (Some (ClickhouseError ''some other error''),
      \<lparr>sent = [Call Restore ''shard1'' ''events'' (Some ''main''),
               Call Restore ''shard1'' ''visits'' (Some ''main'')],
       intended = []\<rparr>)"
proof -
  have pre: "restore_loop (fails_at 1 ''some other error'') (Some ''main'') False
      [events_replica] fresh =
      (None, \<lparr>sent = [Call Restore ''shard1'' ''events'' (Some ''main'')], intended = []\<rparr>)"
    by (simp add: restore_step_def restore_wet seq_def fails_at_def events_replica_def fresh_def)
  show ?thesis
    using unclassified_failure_aborts [OF pre, of visits_replica "''some other error''" "[hits_replica]"]
    by (simp add: fails_at_def visits_replica_def sublist_code(3))
qed

text \<open>
  C4 (as amended). In the restore flow, when the restore attempt on a replica fails with
  a message that contains \<^verbatim>\<open>Replica path is present\<close> and neither needle of class
  RecoverableA, the remediation is exactly one \<open>restart(database, table, cluster)\<close>
  call: the loop body makes the failed restore and the restart and no further restore,
  and its outcome is the outcome of the restart. When the restart returns, the run
  proceeds to the next replica. When the restart raises, its exception ends the run: it
  reaches the caller as raised, and no call is made for the replicas that follow.
\<close>

theorem recoverable_b_remediation:
  assumes "eng (sent w) (Call Restore (database r) (table r) cl) = Some (ClickhouseError msg)"
    and "\<not> sublist ''Replica has metadata in ZooKeeper'' msg"
    and "\<not> sublist ''NO_ZOOKEEPER'' msg"
    and "sublist ''Replica path is present'' msg"
  shows "restore_step eng cl False r w =
       (eng (sent w @ [Call Restore (database r) (table r) cl])
          (Call Restart (database r) (table r) cl),
        w\<lparr>sent := sent w @ [Call Restore (database r) (table r) cl,
              Call Restart (database r) (table r) cl]\<rparr>)
     \<and> (eng (sent w @ [Call Restore (database r) (table r) cl])
          (Call Restart (database r) (table r) cl) = None \<longrightarrow>
        restore_loop eng cl False (r # rs) w =
          restore_loop eng cl False rs
            (w\<lparr>sent := sent w @ [Call Restore (database r) (table r) cl,
                  Call Restart (database r) (table r) cl]\<rparr>))
     \<and> (\<forall>e. eng (sent w @ [Call Restore (database r) (table r) cl])
               (Call Restart (database r) (table r) cl) = Some e \<longrightarrow>
        restore_loop eng cl False (r # rs) w =
          (Some e,
           w\<lparr>sent := sent w @ [Call Restore (database r) (table r) cl,
                 Call Restart (database r) (table r) cl]\<rparr>))"
  using assms by (simp add: restore_step_caught recover_b seq_def)

theorem recoverable_b_remediation_witness:
  "restore_loop (fails_first ''Code: 253. Replica path is present at /clickhouse/events'') None False
     [events_replica, visits_replica] fresh =
     (None,
      \<lparr>sent = [Call Restore ''shard1'' ''events'' None, Call Restart ''shard1'' ''events'' None,
               Call Restore ''shard1'' ''visits'' None],
       intended = []\<rparr>)"
  using recoverable_b_remediation [of "fails_first ''Code: 253. Replica path is present at /clickhouse/events''"
      fresh events_replica None "''Code: 253. Replica path is present at /clickhouse/events''" "[visits_replica]"]
  by (simp add: fails_first_def fresh_def events_replica_def visits_replica_def
      sublist_code(3) restore_step_def restore_wet seq_def)

text \<open>
  The claim as worded has the run proceed to the next replica after the restart,
  whatever the restart does. With the replicas \<open>shard1.events\<close> and \<open>shard1.visits\<close>
  on the cluster \<open>main\<close>, a restore that fails with \<^verbatim>\<open>Replica path is present\<close> and
  a restart that fails with \<^verbatim>\<open>Connection refused\<close>, the loop body makes the one
  restart and no further restore, but the run ends with the failure of the restart and
  the restore of \<open>shard1.visits\<close> is never called.
\<close>

theorem restart_failure_halts_counterexample:
  "restore_loop (fails_twice ''Replica path is present'' ''Connection refused'') (Some ''main'')
     False [events_replica, visits_replica] fresh =
     (Some (ClickhouseError ''Connection refused''),
      \<lparr>sent = [Call Restore ''shard1'' ''events'' (Some ''main''),
               Call Restart ''shard1'' ''events'' (Some ''main'')],
       intended = []\<rparr>)
   \<and> Call Restore ''shard1'' ''visits'' (Some ''main'')
       \<notin> set (sent (snd (restore_loop
             (fails_twice ''Replica path is present'' ''Connection refused'') (Some ''main'')
             False [events_replica, visits_replica] fresh)))"
  by (simp add: restore_step_def restore_wet restart_wet recover_def seq_def
      fails_twice_def events_replica_def visits_replica_def fresh_def)

text \<open>
  C5. The handler classifies the raw message of the caught error by an ordered search
  for exact occurrences of the needles: it acts as the ordered needle list of the
  specification prescribes, a message is of class RecoverableA exactly when it contains
  \<^verbatim>\<open>Replica has metadata in ZooKeeper\<close> or \<^verbatim>\<open>NO_ZOOKEEPER\<close> character for character,
  of class RecoverableB exactly when it is not of class RecoverableA and contains
  \<^verbatim>\<open>Replica path is present\<close>, and so a message that contains needles of both classes
  is of class RecoverableA.
\<close>

theorem classification_order:
  "recover eng cl dry r msg w =
     (case classify msg of
        RecoverableA \<Rightarrow>
          seq (restart_table_replica eng (database r) (table r) cl dry)
              (restore_table_replica eng (database r) (table r) cl dry) w
      | RecoverableB \<Rightarrow> restart_table_replica eng (database r) (table r) cl dry w
      | Unclassified \<Rightarrow> (Some (ClickhouseError msg), w))
   \<and> (classify msg = RecoverableA \<longleftrightarrow>
        (\<exists>p s. msg = p @ ''Replica has metadata in ZooKeeper'' @ s)
        \<or> (\<exists>p s. msg = p @ ''NO_ZOOKEEPER'' @ s))
   \<and> (classify msg = RecoverableB \<longleftrightarrow>
        classify msg \<noteq> RecoverableA \<and> (\<exists>p s. msg = p @ ''Replica path is present'' @ s))
   \<and> (((\<exists>p s. msg = p @ ''Replica has metadata in ZooKeeper'' @ s)
         \<or> (\<exists>p s. msg = p @ ''NO_ZOOKEEPER'' @ s))
        \<and> (\<exists>p s. msg = p @ ''Replica path is present'' @ s)
       \<longrightarrow> classify msg = RecoverableA)"
  unfolding classify_eq recover_def sublist_def by auto

theorem classification_order_witness:
  "classify ''Replica path is present; NO_ZOOKEEPER'' = RecoverableA
   \<and> recover healthy None False events_replica ''Replica path is present; NO_ZOOKEEPER'' fresh =
       (None, \<lparr>sent = [Call Restart ''shard1'' ''events'' None,
                  Call Restore ''shard1'' ''events'' None], intended = []\<rparr>)
   \<and> classify ''no_zookeeper'' = Unclassified"
proof -
  have both: "((\<exists>p s. ''Replica path is present; NO_ZOOKEEPER'' = p @ ''Replica has metadata in ZooKeeper'' @ s)
         \<or> (\<exists>p s. ''Replica path is present; NO_ZOOKEEPER'' = p @ ''NO_ZOOKEEPER'' @ s))
        \<and> (\<exists>p s. ''Replica path is present; NO_ZOOKEEPER'' = p @ ''Replica path is present'' @ s)"
  proof (intro conjI disjI2 exI)
    show "''Replica path is present; NO_ZOOKEEPER'' = ''Replica path is present; '' @ ''NO_ZOOKEEPER'' @ []"
      by simp
    show "''Replica path is present; NO_ZOOKEEPER'' = [] @ ''Replica path is present'' @ ''; NO_ZOOKEEPER''"
      by simp
  qed
  have lower: "classify ''no_zookeeper'' = Unclassified"
    by (simp add: classify_eq sublist_code(3))
  from classification_order [of healthy None False events_replica
      "''Replica path is present; NO_ZOOKEEPER''" fresh] both lower
  show ?thesis
    by (simp add: seq_def restart_wet restore_wet healthy_def events_replica_def fresh_def)
qed

subsection \<open>The restart flow\<close>

text \<open>
  C8. The restart command reads the catalog without the read-only keyword and calls
  \<open>restart(database, table, cluster)\<close> once for each replica, in order, up to the
  first failure. When the first \<open>k\<close> restarts return and \<open>k\<close> is the number of
  replicas, the command returns having made exactly one restart per replica. When the
  first \<open>k\<close> restarts return and the next one raises \<open>e\<close>, whatever its message,
  the command ends with \<open>e\<close> itself and has made \<open>k + 1\<close> calls: none for the
  replicas that follow.
\<close>

theorem restart_command_fail_fast:
  assumes "list_replicas (restart_kwargs all_flag kwargs) = Inr rs"
    and "cluster = (if on_cluster then Some (cluster_name c) else None)"
    and "k \<le> length rs"
    and "\<forall>i<k. eng (sent w @ map (\<lambda>r. Call Restart (database r) (table r) cluster) (take i rs))
               (Call Restart (database (rs ! i)) (table (rs ! i)) cluster) = None"
  shows "kw_is_readonly (restart_kwargs all_flag kwargs) = None
    \<and> (k = length rs \<longrightarrow>
         restart_replica_command list_replicas eng c all_flag on_cluster False kwargs w =
           (None, w\<lparr>sent := sent w
              @ map (\<lambda>r. Call Restart (database r) (table r) cluster) rs\<rparr>))
    \<and> (\<forall>e. k < length rs
           \<and> eng (sent w @ map (\<lambda>r. Call Restart (database r) (table r) cluster) (take k rs))
               (Call Restart (database (rs ! k)) (table (rs ! k)) cluster) = Some e \<longrightarrow>
         restart_replica_command list_replicas eng c all_flag on_cluster False kwargs w =
           (Some e, w\<lparr>sent := sent w
              @ map (\<lambda>r. Call Restart (database r) (table r) cluster) (take (Suc k) rs)\<rparr>))"
proof -
  let ?f = "\<lambda>r. Call Restart (database r) (table r) cluster"
  let ?reply = "\<lambda>i. eng (sent w @ map ?f (take i rs)) (?f (rs ! i))"
  have eq: "restart_replica_command list_replicas eng c all_flag on_cluster False kwargs w =
      restart_loop eng cluster False rs w"
    using assms(1,2) by (simp add: restart_replica_command_def)
  have ro: "kw_is_readonly (restart_kwargs all_flag kwargs) = None"
    by (simp add: restart_kwargs_def)
  from restart_loop_wet [of rs eng w cluster] obtain n where n: "n \<le> length rs"
    and before: "\<forall>i<n. ?reply i = None"
    and at: "if n = length rs
        then restart_loop eng cluster False rs w = (None, w\<lparr>sent := sent w @ map ?f rs\<rparr>)
        else \<exists>e. ?reply n = Some e
                \<and> restart_loop eng cluster False rs w =
                    (Some e, w\<lparr>sent := sent w @ map ?f (take (Suc n) rs)\<rparr>)"
    by blast
  have all: "restart_loop eng cluster False rs w = (None, w\<lparr>sent := sent w @ map ?f rs\<rparr>)"
    if "k = length rs"
  proof (cases "n = length rs")
    case True
    with at show ?thesis by simp
  next
    case False
    with at obtain e where "?reply n = Some e" by auto
    moreover from False n that have "n < k" by simp
    ultimately show ?thesis using assms(4) by simp
  qed
  have stop: "restart_loop eng cluster False rs w =
      (Some e, w\<lparr>sent := sent w @ map ?f (take (Suc k) rs)\<rparr>)"
    if "k < length rs" and "?reply k = Some e" for e
  proof -
    have "\<not> k < n" using before that(2) by auto
    moreover have "\<not> n < k"
    proof
      assume "n < k"
      with that(1) have "n \<noteq> length rs" by simp
      with at obtain e' where "?reply n = Some e'" by auto
      with \<open>n < k\<close> assms(4) show False by simp
    qed
    ultimately have "n = k" by simp
    with at that show ?thesis by auto
  qed
  show ?thesis
    unfolding eq using ro all stop by blast
qed

theorem restart_command_fail_fast_witness:
  "restart_replica_command (list_table_replicas [events_replica, hits_replica, visits_replica])
     (fails_at 1 ''Replica path is present'') local_ctx True True False no_selection fresh =
     (Some (ClickhouseError ''Replica path is present''),
      \<lparr>sent = [Call Restart ''shard1'' ''events'' (Some ''main''),
               Call Restart ''shard2'' ''hits'' (Some ''main'')],
       intended = []\<rparr>)"
proof -
  have sel: "list_table_replicas [events_replica, hits_replica, visits_replica]
      (restart_kwargs True no_selection) = Inr [events_replica, hits_replica, visits_replica]"
    by (simp add: list_table_replicas_def selected_def matches_def restart_kwargs_def
        no_selection_def)
  have cl: "Some ''main'' = (if True then Some (cluster_name local_ctx) else None)"
    by (simp add: local_ctx_def)
  have k: "(1::nat) \<le> length [events_replica, hits_replica, visits_replica]"
    by simp
  have first: "\<forall>i<1. fails_at 1 ''Replica path is present''
      (sent fresh @ map (\<lambda>r. Call Restart (database r) (table r) (Some ''main''))
         (take i [events_replica, hits_replica, visits_replica]))
      (Call Restart (database ([events_replica, hits_replica, visits_replica] ! i))
         (table ([events_replica, hits_replica, visits_replica] ! i)) (Some ''main'')) = None"
    by (simp add: fails_at_def fresh_def)
  from restart_command_fail_fast [where list_replicas =
        "list_table_replicas [events_replica, hits_replica, visits_replica]"
      and all_flag = True and kwargs = no_selection and on_cluster = True and c = local_ctx
      and eng = "fails_at 1 ''Replica path is present''" and w = fresh, OF sel cl k first]
  show ?thesis
    by (simp add: fails_at_def fresh_def events_replica_def hits_replica_def)
qed

subsection \<open>The flag for all replicas\<close>

text \<open>
  C10. The restore command does not pass the flag \<^verbatim>\<open>_all\<close> on: whatever the catalog
  read does with its keyword arguments, restore with the flag set behaves as restore
  with the flag unset, the other options being equal, and the keyword is absent from the
  arguments of the read. The restart command passes the flag on: the keyword reaches the
  read with the value of the flag, and a catalog read that looks at it makes the two
  runs of restart differ.
\<close>

theorem restore_ignores_all_flag:
  "restore_command list_replicas eng c a on_cluster dry_run kwargs w =
     restore_command list_replicas eng c b on_cluster dry_run kwargs w
   \<and> kw_all (restore_kwargs kwargs) = None
   \<and> kw_all (restart_kwargs a kwargs) = Some a
   \<and> restart_replica_command all_sensitive healthy local_ctx True False False no_selection fresh =
       (None, \<lparr>sent = [Call Restart ''shard1'' ''events'' None,
                  Call Restart ''shard2'' ''hits'' None], intended = []\<rparr>)
   \<and> restart_replica_command all_sensitive healthy local_ctx False False False no_selection fresh =
       (None, \<lparr>sent = [Call Restart ''shard1'' ''events'' None], intended = []\<rparr>)
   \<and> restore_command all_sensitive healthy local_ctx True False False no_selection fresh =
       (None, \<lparr>sent = [Call Restore ''shard1'' ''events'' None], intended = []\<rparr>)"
  by (simp add: restore_command_def restart_replica_command_def restore_kwargs_def
      restart_kwargs_def all_sensitive_def healthy_def seq_def restart_wet restore_wet
      restore_step_def events_replica_def hits_replica_def fresh_def)

subsection \<open>Selection of the replicas to restore\<close>

text \<open>
  C6. The restore command attempts restoration on read-only replicas only: with the
  catalog read of the specification, the replicas it works through are exactly the rows
  of the catalog, in order, that are read-only and match the database and table filters,
  and every call it sends to the engine or records in dry-run mode names the database
  and table of such a row.
\<close>

theorem restore_only_readonly:
  "restore_command (list_table_replicas catalog) eng c all_flag on_cluster dry_run kwargs w =
     restore_loop eng (if on_cluster then Some (cluster_name c) else None) dry_run
       (filter (\<lambda>r. is_readonly r
            \<and> matches (database r) (database_pattern kwargs) (exclude_database_pattern kwargs)
            \<and> matches (table r) (table_pattern kwargs) (exclude_table_pattern kwargs)) catalog) w
   \<and> (\<exists>cs ds.
        sent (snd (restore_command (list_table_replicas catalog) eng c all_flag on_cluster
           dry_run kwargs w)) = sent w @ cs
        \<and> intended (snd (restore_command (list_table_replicas catalog) eng c all_flag on_cluster
           dry_run kwargs w)) = intended w @ ds
        \<and> (\<forall>x \<in> set cs \<union> set ds. \<exists>r \<in> set catalog. is_readonly r
             \<and> matches (database r) (database_pattern kwargs) (exclude_database_pattern kwargs)
             \<and> matches (table r) (table_pattern kwargs) (exclude_table_pattern kwargs)
             \<and> (\<exists>op. x = Call op (database r) (table r)
                   (if on_cluster then Some (cluster_name c) else None))))"
proof -
  let ?cl = "if on_cluster then Some (cluster_name c) else None"
  let ?sel = "\<lambda>r. is_readonly r
      \<and> matches (database r) (database_pattern kwargs) (exclude_database_pattern kwargs)
      \<and> matches (table r) (table_pattern kwargs) (exclude_table_pattern kwargs)"
  have sel: "selected (restore_kwargs kwargs) = ?sel"
    by (auto simp: selected_def restore_kwargs_def fun_eq_iff)
  have eq: "restore_command (list_table_replicas catalog) eng c all_flag on_cluster dry_run kwargs w =
      restore_loop eng ?cl dry_run (filter ?sel catalog) w"
    by (simp add: restore_command_def list_table_replicas_def sel)
  from restore_loop_calls [where rs = "filter ?sel catalog" and cl = ?cl and w = w and eng = eng
      and dry = dry_run]
  obtain cs ds where cd: "sent (snd (restore_loop eng ?cl dry_run (filter ?sel catalog) w)) = sent w @ cs"
    "intended (snd (restore_loop eng ?cl dry_run (filter ?sel catalog) w)) = intended w @ ds"
    "set cs \<subseteq> (\<Union>r\<in>set (filter ?sel catalog). calls_on ?cl r)"
    "set ds \<subseteq> (\<Union>r\<in>set (filter ?sel catalog). calls_on ?cl r)"
    unfolding only_calls_def by blast
  have "\<exists>r \<in> set catalog. ?sel r \<and> (\<exists>op. x = Call op (database r) (table r) ?cl)"
    if "x \<in> set cs \<union> set ds" for x
  proof -
    from that cd(3,4) obtain r where "r \<in> set (filter ?sel catalog)" "x \<in> calls_on ?cl r"
      by blast
    then show ?thesis
      unfolding calls_on_def by auto
  qed
  with cd(1,2) show ?thesis
    unfolding eq by blast
qed

theorem restore_only_readonly_witness:
  "restore_command (list_table_replicas [hits_replica, events_replica, visits_replica])
     healthy local_ctx False False False
     \<lparr>database_pattern = Some ''shard%'', exclude_database_pattern = None,
      table_pattern = None, exclude_table_pattern = Some ''visits, clicks''\<rparr> fresh =
     (None, \<lparr>sent = [Call Restore ''shard1'' ''events'' None], intended = []\<rparr>)"
  using restore_only_readonly [where catalog = "[hits_replica, events_replica, visits_replica]"
      and eng = healthy and c = local_ctx and all_flag = False and on_cluster = False
      and dry_run = False and w = fresh
      and kwargs = "\<lparr>database_pattern = Some ''shard%'', exclude_database_pattern = None,
        table_pattern = None, exclude_table_pattern = Some ''visits, clicks''\<rparr>"]
  by (simp add: matches_def matchOne_def strip_def is_space_def
      hits_replica_def events_replica_def visits_replica_def healthy_def fresh_def
      restore_step_def restore_wet seq_def)

subsection \<open>Dry run\<close>

text \<open>
  C7. With the dry-run flag set, a restart or restore call is recorded as an intended
  action (operation, database, table, cluster annotation) and returns success without
  reaching the engine. The restore and the restart command then send nothing to the
  engine and end without an exception, whatever the engine would have answered; they
  record one intended action for each replica the catalog read returns, in order. The
  catalog is read as without the flag: the read receives the same arguments, its
  failure ends the command, and with the catalog read of the specification the recorded
  actions are those of the selected rows.
\<close>

theorem dry_run_sends_nothing:
  "execute_ddl eng True action w = (None, w\<lparr>intended := intended w @ [action]\<rparr>)
   \<and> restore_command list_replicas eng c all_flag on_cluster True kwargs w =
       (case list_replicas (restore_kwargs kwargs) of
          Inl e \<Rightarrow> (Some e, w)
        | Inr rs \<Rightarrow>
            (None, w\<lparr>intended := intended w
               @ map (\<lambda>r. Call Restore (database r) (table r)
                       (if on_cluster then Some (cluster_name c) else None)) rs\<rparr>))
   \<and> restart_replica_command list_replicas eng c all_flag on_cluster True kwargs w =
       (case list_replicas (restart_kwargs all_flag kwargs) of
          Inl e \<Rightarrow> (Some e, w)
        | Inr rs \<Rightarrow>
            (None, w\<lparr>intended := intended w
               @ map (\<lambda>r. Call Restart (database r) (table r)
                       (if on_cluster then Some (cluster_name c) else None)) rs\<rparr>))
   \<and> restore_command (list_table_replicas catalog) eng c all_flag on_cluster True kwargs w =
       (None, w\<lparr>intended := intended w
          @ map (\<lambda>r. Call Restore (database r) (table r)
                  (if on_cluster then Some (cluster_name c) else None))
              (filter (selected (restore_kwargs kwargs)) catalog)\<rparr>)
   \<and> sent (snd (restore_command (list_table_replicas catalog) eng c all_flag on_cluster True
        kwargs w)) = sent w
   \<and> sent (snd (restart_replica_command (list_table_replicas catalog) eng c all_flag on_cluster
        True kwargs w)) = sent w"
  by (simp add: execute_ddl_dry restore_command_def restart_replica_command_def
      restore_loop_dry restart_loop_dry list_table_replicas_def split: sum.split)

theorem dry_run_sends_nothing_witness:
  "restore_command (list_table_replicas [events_replica, hits_replica])
     (fails_first ''Replica has metadata in ZooKeeper'') local_ctx False True True no_selection fresh =
     (None, \<lparr>sent = [], intended = [Call Restore ''shard1'' ''events'' (Some ''main'')]\<rparr>)"
  using dry_run_sends_nothing [where eng = "fails_first ''Replica has metadata in ZooKeeper''"
      and w = fresh and c = local_ctx and all_flag = False and on_cluster = True
      and kwargs = no_selection and catalog = "[events_replica, hits_replica]"]
  by (simp add: list_table_replicas_def selected_def matches_def restore_kwargs_def
      no_selection_def events_replica_def hits_replica_def fresh_def local_ctx_def)

subsection \<open>Pattern matching\<close>

text \<open>
  C9. For every pattern \<open>p\<close> and candidate \<open>v\<close>: when \<open>p\<close> contains a comma,
  \<open>matchOne v p\<close> holds exactly when the trimmed \<open>v\<close> is one of the trimmed
  elements of \<open>p\<close> split at the commas; when \<open>p\<close> contains no comma, it holds exactly
  when \<open>v\<close> is one of the strings the glob pattern \<open>p\<close> stands for, \<open>%\<close> standing
  for any sequence of characters and \<open>_\<close> for exactly one.
\<close>

theorem matchOne_contract:
  "matchOne v p =
     (if CHR '','' \<in> set p then strip v \<in> set (map strip (split_on CHR '','' p))
      else v \<in> glob_lang p)"
proof (cases "CHR '','' \<in> set p")
  case True
  then have "matchOne v p = List.member (map strip (split_on CHR '','' p)) (strip v)"
    by (simp add: matchOne_def)
  with True show ?thesis by simp
next
  case False
  then have "matchOne v p = like_match p v"
    by (simp add: matchOne_def)
  with False show ?thesis by (simp add: like_match_lang)
qed

theorem matchOne_contract_witness:
  "matchOne ''events '' ''visits, events''
   \<and> \<not> matchOne ''event'' ''visits, events''
   \<and> matchOne ''shard1'' ''shard_''
   \<and> \<not> matchOne ''shard10'' ''shard_''
   \<and> matchOne ''shard10'' ''sh%0''
   \<and> matchOne ''shard'' ''shard%''"
  using matchOne_contract [of "''events ''" "''visits, events''"]
    matchOne_contract [of "''shard1''" "''shard_''"]
  by (simp add: matchOne_def strip_def is_space_def)

end
